theory Spec2Isabelle
  imports Complex_Main
begin

section \<open>The adaptive flashcard scheduler (flashbrain.py)\<close>

text \<open>
  Python floats are read as real numbers throughout: \<open>math.exp\<close> is \<open>exp\<close>,
  \<open>math.log\<close> is \<open>ln\<close>, and rounding, infinities, NaN and the \<open>OverflowError\<close> of a
  result beyond the range of a float are not part of this development. Python's unbounded \<open>int\<close> is \<open>int\<close>. A \<open>string\<close> is a text of code
  points below 256.
\<close>

subsection \<open>Data models\<close>

text \<open>The values \<open>json.loads\<close> produces. A \<open>JDict\<close> lists the items of the dict
  (keys distinct, as in a Python dict).\<close>

datatype json =
    JNull
  | JBool bool
  | JInt int
  | JFloat real
  | JStr string
  | JList "json list"
  | JDict "(string \<times> json) list"

text \<open>The two dataclasses, with the field types they declare. The fields \<open>id\<close> and
  \<open>type\<close> of \<open>Question\<close> are \<open>id_q\<close> and \<open>type_q\<close> here.\<close>

record Question =
  id_q :: string
  type_q :: string
  tags :: "string list"
  payload :: json

record History =
  question_id :: string
  attempts :: int
  seconds :: real
  correct :: bool
  timestamp :: real

text \<open>The exceptions the module can raise.\<close>

datatype error =
    FileNotFoundError
  | JSONDecodeError
  | KeyError
  | TypeError
  | ValueError
  | IndexError

subsection \<open>Scoring\<close>

text \<open>\<open>max(xs, key=f)\<close> on a non-empty list, the running maximum \<open>m\<close> being replaced
  only by a strictly greater item: the first of several maximal items is returned.\<close>

fun max_key :: "('a \<Rightarrow> real) \<Rightarrow> 'a \<Rightarrow> 'a list \<Rightarrow> 'a" where
  "max_key f m [] = m"
| "max_key f m (x # xs) = max_key f (if f x > f m then x else m) xs"

definition last_seen :: "History list \<Rightarrow> string \<Rightarrow> History option" where
  "last_seen history qid =
     (case filter (\<lambda>h. question_id h = qid) history of
        [] \<Rightarrow> None
      | x # xs \<Rightarrow> Some (max_key timestamp x xs))"

definition compute_priority :: "Question \<Rightarrow> History list \<Rightarrow> real \<Rightarrow> real" where
  "compute_priority question history now =
     (let tricky_bonus = (if ''tricky'' \<in> set (tags question) then 0.25 else 0.0) in
      case last_seen history (id_q question) of
        None \<Rightarrow> 5.0 + tricky_bonus
      | Some last' \<Rightarrow>
          (let attempts_sum = sum_list (map attempts
                 (filter (\<lambda>h. question_id h = id_q question) history));
               incorrect = int (length
                 (filter (\<lambda>h. question_id h = id_q question \<and> \<not> correct h) history));
               miss_factor = 1.0 + real_of_int incorrect * 1.2
                 + real_of_int (max 0 (attempts_sum - incorrect)) * 0.2;
               slow_penalty = min 1.5 (seconds last' / 4.0);
               hours_since = (now - timestamp last') / 3600.0;
               decay = exp (hours_since * ln 0.5 / 18.0)
           in (1 + tricky_bonus + slow_penalty) * miss_factor * (1 - decay)))"

text \<open>The local variables of \<open>compute_priority\<close>, as functions of what they are computed
  from, for the statements that hold some of them fixed.\<close>

definition tricky_bonus :: "Question \<Rightarrow> real" where
  "tricky_bonus question = (if ''tricky'' \<in> set (tags question) then 0.25 else 0.0)"

definition miss_factor :: "Question \<Rightarrow> History list \<Rightarrow> real" where
  "miss_factor question history =
     (let attempts_sum = sum_list (map attempts
            (filter (\<lambda>h. question_id h = id_q question) history));
          incorrect = int (length
            (filter (\<lambda>h. question_id h = id_q question \<and> \<not> correct h) history))
      in 1.0 + real_of_int incorrect * 1.2
           + real_of_int (max 0 (attempts_sum - incorrect)) * 0.2)"

definition slow_penalty :: "History \<Rightarrow> real" where
  "slow_penalty last' = min 1.5 (seconds last' / 4.0)"

definition hours_since :: "real \<Rightarrow> History \<Rightarrow> real" where
  "hours_since now last' = (now - timestamp last') / 3600.0"

text \<open>\<open>list.sort(key=f, reverse=True)\<close>: a stable sort into descending key order; items
  with equal keys keep the order they had.\<close>

definition sort_reverse :: "('a \<Rightarrow> real) \<Rightarrow> 'a list \<Rightarrow> 'a list" where
  "sort_reverse f xs = sort_key (\<lambda>x. - f x) xs"

text \<open>\<open>now\<close> is the one reading of \<open>time.time()\<close> the function makes; \<open>scored[0]\<close>
  raises \<open>IndexError\<close> on the empty list.\<close>

definition select_next_question ::
  "Question list \<Rightarrow> History list \<Rightarrow> real \<Rightarrow> error + Question" where
  "select_next_question questions history now =
     (let scored = map (\<lambda>q. (compute_priority q history now, q)) questions in
      case sort_reverse fst scored of
        [] \<Rightarrow> Inl IndexError
      | x # _ \<Rightarrow> Inr (snd x))"

subsection \<open>Library functions the loaders call\<close>

text \<open>The functions of the Python library whose results depend on the text they are
  given are parameters of the development: \<open>json.loads\<close> (\<open>None\<close> when it raises
  \<open>JSONDecodeError\<close>), \<open>json.dumps\<close>, and \<open>int\<close> and \<open>float\<close> applied to a \<open>str\<close>
  (\<open>None\<close> when they raise \<open>ValueError\<close>).\<close>

record pylib =
  json_loads :: "string \<Rightarrow> json option"
  json_dumps :: "json \<Rightarrow> string"
  int_str :: "string \<Rightarrow> int option"
  float_str :: "string \<Rightarrow> real option"

text \<open>\<open>int(x)\<close>, \<open>float(x)\<close> and \<open>bool(x)\<close> on a decoded JSON value. \<open>int\<close> truncates a
  float towards zero.\<close>

fun py_int :: "pylib \<Rightarrow> json \<Rightarrow> error + int" where
  "py_int L (JInt n) = Inr n"
| "py_int L (JBool b) = Inr (if b then 1 else 0)"
| "py_int L (JFloat r) = Inr (if 0 \<le> r then \<lfloor>r\<rfloor> else \<lceil>r\<rceil>)"
| "py_int L (JStr s) = (case int_str L s of None \<Rightarrow> Inl ValueError | Some n \<Rightarrow> Inr n)"
| "py_int L JNull = Inl TypeError"
| "py_int L (JList xs) = Inl TypeError"
| "py_int L (JDict kvs) = Inl TypeError"

fun py_float :: "pylib \<Rightarrow> json \<Rightarrow> error + real" where
  "py_float L (JInt n) = Inr (real_of_int n)"
| "py_float L (JBool b) = Inr (if b then 1 else 0)"
| "py_float L (JFloat r) = Inr r"
| "py_float L (JStr s) = (case float_str L s of None \<Rightarrow> Inl ValueError | Some r \<Rightarrow> Inr r)"
| "py_float L JNull = Inl TypeError"
| "py_float L (JList xs) = Inl TypeError"
| "py_float L (JDict kvs) = Inl TypeError"

fun py_bool :: "json \<Rightarrow> bool" where
  "py_bool JNull = False"
| "py_bool (JBool b) = b"
| "py_bool (JInt n) = (n \<noteq> 0)"
| "py_bool (JFloat r) = (r \<noteq> 0)"
| "py_bool (JStr s) = (s \<noteq> [])"
| "py_bool (JList xs) = (xs \<noteq> [])"
| "py_bool (JDict kvs) = (kvs \<noteq> [])"

text \<open>\<open>raw.get(key, default)\<close> on the items of a dict.\<close>

definition dict_get :: "(string \<times> json) list \<Rightarrow> string \<Rightarrow> json \<Rightarrow> json" where
  "dict_get kvs key dflt = (case map_of kvs key of None \<Rightarrow> dflt | Some v \<Rightarrow> v)"

text \<open>A JSON value that is a list of strings, as the field \<open>tags\<close> declares.\<close>

fun str_list_items :: "json list \<Rightarrow> string list option" where
  "str_list_items [] = Some []"
| "str_list_items (JStr s # xs) = map_option (Cons s) (str_list_items xs)"
| "str_list_items (_ # xs) = None"

fun str_list :: "json \<Rightarrow> string list option" where
  "str_list (JList xs) = str_list_items xs"
| "str_list _ = None"

subsection \<open>The \<open>from_dict\<close> constructors\<close>

text \<open>
  \<open>from_dict\<close> raises \<open>TypeError\<close> when \<open>raw\<close> is not a dict (\<open>raw["id"]\<close> on any other
  JSON value) and \<open>KeyError\<close> when a subscripted key is missing. The fields it copies
  without a conversion (\<open>id\<close>, \<open>type\<close>, \<open>tags\<close>, \<open>question_id\<close>) are not checked by
  Python: the result \<open>Inr None\<close> stands for an object that Python builds although a copied
  field holds a value outside the type its dataclass declares; \<open>Inr (Some r)\<close> is the
  record \<open>r\<close>.
\<close>

definition Question_from_dict :: "json \<Rightarrow> error + Question option" where
  "Question_from_dict raw =
     (case raw of
        JDict kvs \<Rightarrow>
          (case map_of kvs ''id'' of
             None \<Rightarrow> Inl KeyError
           | Some iv \<Rightarrow>
               (case map_of kvs ''type'' of
                  None \<Rightarrow> Inl KeyError
                | Some tv \<Rightarrow>
                    Inr (case (iv, tv, str_list (dict_get kvs ''tags'' (JList []))) of
                           (JStr i, JStr t, Some ts) \<Rightarrow>
                             Some \<lparr>id_q = i, type_q = t, tags = ts, payload = raw\<rparr>
                         | _ \<Rightarrow> None)))
      | _ \<Rightarrow> Inl TypeError)"

text \<open>\<open>now\<close> is the reading of \<open>time.time()\<close> that is the default of \<open>timestamp\<close>.\<close>

definition History_from_dict :: "pylib \<Rightarrow> real \<Rightarrow> json \<Rightarrow> error + History option" where
  "History_from_dict L now raw =
     (case raw of
        JDict kvs \<Rightarrow>
          (case map_of kvs ''question_id'' of
             None \<Rightarrow> Inl KeyError
           | Some qv \<Rightarrow>
               (case py_int L (dict_get kvs ''attempts'' (JInt 1)) of
                  Inl e \<Rightarrow> Inl e
                | Inr a \<Rightarrow>
                    (case py_float L (dict_get kvs ''seconds'' (JFloat 0.0)) of
                       Inl e \<Rightarrow> Inl e
                     | Inr s \<Rightarrow>
                         (let c = py_bool (dict_get kvs ''correct'' (JBool False)) in
                          case py_float L (dict_get kvs ''timestamp'' (JFloat now)) of
                            Inl e \<Rightarrow> Inl e
                          | Inr t \<Rightarrow>
                              Inr (case qv of
                                     JStr qid \<Rightarrow>
                                       Some \<lparr>question_id = qid, attempts = a, seconds = s,
                                             correct = c, timestamp = t\<rparr>
                                   | _ \<Rightarrow> None)))))
      | _ \<Rightarrow> Inl TypeError)"

subsection \<open>IO helpers\<close>

text \<open>A file is absent (\<open>None\<close>) or holds a text. Reading it in text mode turns
  \<open>\r\n\<close> and \<open>\r\<close> into \<open>\n\<close>; iterating over it yields the lines, each with its
  terminating \<open>\n\<close> (the last line may lack one).\<close>

abbreviation LF :: char where "LF \<equiv> CHR 0x0A"
abbreviation CR :: char where "CR \<equiv> CHR 0x0D"

fun universal_newlines :: "string \<Rightarrow> string" where
  "universal_newlines [] = []"
| "universal_newlines [a] = [if a = CR then LF else a]"
| "universal_newlines (a # b # cs) =
     (if a = CR \<and> b = LF then LF # universal_newlines cs
      else if a = CR then LF # universal_newlines (b # cs)
      else a # universal_newlines (b # cs))"

fun file_lines :: "string \<Rightarrow> string list" where
  "file_lines [] = []"
| "file_lines (c # cs) =
     (if c = LF then [c] # file_lines cs
      else (case file_lines cs of [] \<Rightarrow> [[c]] | l # ls \<Rightarrow> (c # l) # ls))"

text \<open>\<open>str.strip()\<close>: the whitespace of Python among the code points below 256.\<close>

definition isspace :: "char \<Rightarrow> bool" where
  "isspace c \<longleftrightarrow> (of_char c :: nat) \<in> {9, 10, 11, 12, 13, 28, 29, 30, 31, 32, 133, 160}"

definition strip :: "string \<Rightarrow> string" where
  "strip s = rev (dropWhile isspace (rev (dropWhile isspace s)))"

text \<open>The loops of \<open>load_questions\<close> and \<open>load_history\<close> over the lines. An exception
  ends the loop; an object outside the declared types does not, so that the result is
  \<open>Inr None\<close> only when Python returns a list and some element of it is such an object.
  Every call of \<open>History.from_dict\<close> reads \<open>time.time()\<close> once: \<open>clock k\<close> is the
  reading of the call number \<open>k\<close> of a load.\<close>

fun load_questions_loop :: "pylib \<Rightarrow> string list \<Rightarrow> error + Question list option" where
  "load_questions_loop L [] = Inr (Some [])"
| "load_questions_loop L (line # rest) =
     (let line = strip line in
      if line = [] then load_questions_loop L rest
      else case json_loads L line of
             None \<Rightarrow> Inl JSONDecodeError
           | Some data \<Rightarrow>
               (case Question_from_dict data of
                  Inl e \<Rightarrow> Inl e
                | Inr q \<Rightarrow>
                    (case load_questions_loop L rest of
                       Inl e \<Rightarrow> Inl e
                     | Inr qs \<Rightarrow>
                         Inr (case (q, qs) of
                                (Some q', Some qs') \<Rightarrow> Some (q' # qs')
                              | _ \<Rightarrow> None))))"

definition load_questions :: "pylib \<Rightarrow> string option \<Rightarrow> error + Question list option" where
  "load_questions L path =
     (case path of
        None \<Rightarrow> Inl FileNotFoundError
      | Some txt \<Rightarrow> load_questions_loop L (file_lines (universal_newlines txt)))"

fun load_history_loop ::
  "pylib \<Rightarrow> (nat \<Rightarrow> real) \<Rightarrow> nat \<Rightarrow> string list \<Rightarrow> error + History list option" where
  "load_history_loop L clock k [] = Inr (Some [])"
| "load_history_loop L clock k (line # rest) =
     (let line = strip line in
      if line = [] then load_history_loop L clock k rest
      else case json_loads L line of
             None \<Rightarrow> Inl JSONDecodeError
           | Some data \<Rightarrow>
               (case History_from_dict L (clock k) data of
                  Inl e \<Rightarrow> Inl e
                | Inr h \<Rightarrow>
                    (case load_history_loop L clock (Suc k) rest of
                       Inl e \<Rightarrow> Inl e
                     | Inr hs \<Rightarrow>
                         Inr (case (h, hs) of
                                (Some h', Some hs') \<Rightarrow> Some (h' # hs')
                              | _ \<Rightarrow> None))))"

definition load_history ::
  "pylib \<Rightarrow> (nat \<Rightarrow> real) \<Rightarrow> string option \<Rightarrow> error + History list option" where
  "load_history L clock path =
     (case path of
        None \<Rightarrow> Inr (Some [])
      | Some txt \<Rightarrow> load_history_loop L clock 0 (file_lines (universal_newlines txt)))"

text \<open>\<open>record_result\<close> returns the file as it is after the call: opening for append
  creates an absent file, and the write adds one line at the end. \<open>now\<close> is the reading
  of \<open>time.time()\<close>.\<close>

definition entry :: "string \<Rightarrow> int \<Rightarrow> real \<Rightarrow> bool \<Rightarrow> real \<Rightarrow> json" where
  "entry qid n secs ok now =
     JDict [(''question_id'', JStr qid), (''attempts'', JInt n), (''seconds'', JFloat secs),
            (''correct'', JBool ok), (''timestamp'', JFloat now)]"

definition record_result ::
  "pylib \<Rightarrow> string \<Rightarrow> int \<Rightarrow> real \<Rightarrow> bool \<Rightarrow> real \<Rightarrow> string option \<Rightarrow> string option" where
  "record_result L qid n secs ok now path =
     Some ((case path of None \<Rightarrow> [] | Some txt \<Rightarrow> txt)
           @ json_dumps L (entry qid n secs ok now) @ [LF])"

subsection \<open>What the round trip needs of the JSON library\<close>

text \<open>\<open>json.loads\<close> reads back the value \<open>v\<close> from the text \<open>json.dumps\<close> writes for
  it, and that text is not empty, has no whitespace at either end and holds no line
  break (\<open>json.dumps\<close> writes an object as \<open>{...}\<close> on one line).\<close>

definition json_roundtrip :: "pylib \<Rightarrow> json \<Rightarrow> bool" where
  "json_roundtrip L v =
     (let d = json_dumps L v in
      json_loads L d = Some v \<and> d \<noteq> [] \<and> \<not> isspace (hd d) \<and> \<not> isspace (last d)
      \<and> LF \<notin> set d \<and> CR \<notin> set d)"

subsection \<open>Example data\<close>

text \<open>The bank and the history record of the concrete scenarios, a third question that
  ties with the first, and a record that refers to no question of the bank.\<close>

definition example_q1 :: Question where
  "example_q1 = \<lparr>id_q = ''q1'', type_q = ''hear_pick'', tags = [''tricky''],
     payload = JDict [(''id'', JStr ''q1''), (''type'', JStr ''hear_pick''),
                      (''tags'', JList [JStr ''tricky''])]\<rparr>"

definition example_q2 :: Question where
  "example_q2 = \<lparr>id_q = ''q2'', type_q = ''hear_pick'', tags = [],
     payload = JDict [(''id'', JStr ''q2''), (''type'', JStr ''hear_pick''),
                      (''tags'', JList [])]\<rparr>"

definition example_q3 :: Question where
  "example_q3 = \<lparr>id_q = ''q3'', type_q = ''hear_pick'', tags = [''tricky''],
     payload = JDict [(''id'', JStr ''q3''), (''type'', JStr ''hear_pick''),
                      (''tags'', JList [JStr ''tricky''])]\<rparr>"

definition example_h1 :: "real \<Rightarrow> History" where
  "example_h1 t = \<lparr>question_id = ''q1'', attempts = 2, seconds = 4.0, correct = False,
     timestamp = t\<rparr>"

definition example_h1_correct :: "real \<Rightarrow> History" where
  "example_h1_correct t = \<lparr>question_id = ''q1'', attempts = 2, seconds = 4.0, correct = True,
     timestamp = t\<rparr>"

definition example_orphan :: History where
  "example_orphan = \<lparr>question_id = ''gone'', attempts = 9, seconds = 30.0, correct = False,
     timestamp = 50.0\<rparr>"

text \<open>Lines of a history log: a complete one, one without the fields \<open>attempts\<close>,
  \<open>seconds\<close>, \<open>correct\<close> and \<open>timestamp\<close>, one that is a list and one that is an
  object without \<open>question_id\<close>; and a library that decodes these four lines as
  \<open>json.loads\<close> does, rejects every other text, and encodes the entry of the first line
  as \<open>json.dumps\<close> does.\<close>

definition example_line :: string where
  \<open>example_line =
     ''{"question_id": "q1", "attempts": 2, "seconds": 4.0, "correct": false, "timestamp": 100.0}''\<close>

definition example_short_line :: string where
  \<open>example_short_line = ''{"question_id": "q1"}''\<close>

definition example_list_line :: string where
  \<open>example_list_line = ''[1, 2]''\<close>

definition example_no_id_line :: string where
  \<open>example_no_id_line = ''{"attempts": 3}''\<close>

definition example_lib :: pylib where
  "example_lib =
     \<lparr>json_loads = (\<lambda>s. if s = example_line then Some (entry ''q1'' 2 4.0 False 100.0)
                        else if s = example_short_line
                          then Some (JDict [(''question_id'', JStr ''q1'')])
                        else if s = example_list_line then Some (JList [JInt 1, JInt 2])
                        else if s = example_no_id_line
                          then Some (JDict [(''attempts'', JInt 3)])
                        else None),
      json_dumps = (\<lambda>v. if v = entry ''q1'' 2 4.0 False 100.0 then example_line else []),
      int_str = (\<lambda>s. None),
      float_str = (\<lambda>s. None)\<rparr>"

section \<open>Properties of the scoring\<close>

subsection \<open>The most recent matching record\<close>

lemma max_key_in: "max_key f m xs \<in> set (m # xs)"
  by (induction xs arbitrary: m) auto

lemma max_key_start_le: "f m \<le> f (max_key f m xs)"
proof (induction xs arbitrary: m)
  case Nil show ?case by simp
next
  case (Cons x xs)
  show ?case
  proof (cases "f x > f m")
    case True
    have "f x \<le> f (max_key f x xs)" by (rule Cons.IH)
    with True show ?thesis by simp
  next
    case False
    then show ?thesis by (simp add: Cons.IH)
  qed
qed

lemma max_key_ge: "y \<in> set (m # xs) \<Longrightarrow> f y \<le> f (max_key f m xs)"
proof (induction xs arbitrary: m)
  case Nil then show ?case by simp
next
  case (Cons x xs)
  let ?m' = "if f x > f m then x else m"
  have step: "max_key f m (x # xs) = max_key f ?m' xs" by simp
  have start: "f ?m' \<le> f (max_key f ?m' xs)" by (rule max_key_start_le)
  consider "y = m" | "y = x" | "y \<in> set xs" using Cons.prems by auto
  then show ?case
  proof cases
    case 1
    have "f m \<le> f ?m'" by simp
    with start 1 step show ?thesis by (metis order_trans)
  next
    case 2
    have "f x \<le> f ?m'" by simp
    with start 2 step show ?thesis by (metis order_trans)
  next
    case 3
    then have "y \<in> set (?m' # xs)" by simp
    then have "f y \<le> f (max_key f ?m' xs)" by (rule Cons.IH)
    with step show ?thesis by simp
  qed
qed

lemma last_seen_None:
  "last_seen history qid = None \<longleftrightarrow> filter (\<lambda>h. question_id h = qid) history = []"
  by (simp add: last_seen_def split: list.splits)

lemma last_seen_Some:
  assumes "last_seen history qid = Some l"
  shows "l \<in> set (filter (\<lambda>h. question_id h = qid) history)"
    and "r \<in> set (filter (\<lambda>h. question_id h = qid) history) \<Longrightarrow> timestamp r \<le> timestamp l"
proof -
  obtain x xs where fx: "filter (\<lambda>h. question_id h = qid) history = x # xs"
    and l: "l = max_key timestamp x xs"
    using assms by (auto simp: last_seen_def split: list.splits)
  show "l \<in> set (filter (\<lambda>h. question_id h = qid) history)"
    unfolding fx l by (rule max_key_in)
  show "timestamp r \<le> timestamp l" if "r \<in> set (filter (\<lambda>h. question_id h = qid) history)"
    using that unfolding fx l by (rule max_key_ge)
qed

lemma last_seen_timestamp_Max:
  assumes "last_seen history qid = Some l"
  shows "timestamp l = Max (timestamp ` set (filter (\<lambda>h. question_id h = qid) history))"
proof -
  let ?S = "timestamp ` set (filter (\<lambda>h. question_id h = qid) history)"
  have "timestamp l \<in> ?S" using last_seen_Some(1)[OF assms] by (rule imageI)
  moreover have "\<forall>t\<in>?S. t \<le> timestamp l" using last_seen_Some(2)[OF assms] by auto
  ultimately show ?thesis by (intro Max_eqI[symmetric]) auto
qed

subsection \<open>The score of a seen and of an unseen question\<close>

lemma compute_priority_seen:
  assumes "last_seen history (id_q q) = Some l"
  shows "compute_priority q history now =
    (1 + (if ''tricky'' \<in> set (tags q) then 0.25 else 0) + min 1.5 (seconds l / 4))
    * (1 + real_of_int (int (length
             (filter (\<lambda>h. question_id h = id_q q \<and> \<not> correct h) history))) * 1.2
       + real_of_int (max 0
           (sum_list (map attempts (filter (\<lambda>h. question_id h = id_q q) history))
            - int (length (filter (\<lambda>h. question_id h = id_q q \<and> \<not> correct h) history))))
         * 0.2)
    * (1 - exp ((now - timestamp l) / 3600 * ln 0.5 / 18))"
  using assms by (simp add: compute_priority_def Let_def)

lemma example_scores:
  "compute_priority example_q1 [] now = 5.25"
  "compute_priority example_q2 [] now = 5"
  "compute_priority example_q3 [] now = 5.25"
  by (simp_all add: compute_priority_def last_seen_def example_q1_def example_q2_def example_q3_def)

text \<open>
  Claim C3. A question that no record of the history refers to scores exactly
  \<open>5.0 + 0.25\<close> when \<open>"tricky"\<close> is among its tags and exactly \<open>5.0\<close> otherwise,
  whatever \<open>now\<close> is.
\<close>

theorem compute_priority_unseen:
  assumes "\<forall>h\<in>set history. question_id h \<noteq> id_q question"
  shows "compute_priority question history now =
           (if ''tricky'' \<in> set (tags question) then 5.0 + 0.25 else 5.0)"
proof -
  have "filter (\<lambda>h. question_id h = id_q question) history = []"
    using assms by (simp add: filter_empty_conv)
  then have "last_seen history (id_q question) = None" by (simp add: last_seen_None)
  then show ?thesis by (simp add: compute_priority_def)
qed

theorem compute_priority_unseen_witness:
  "question_id (example_h1 0) \<noteq> id_q example_q2
   \<and> compute_priority example_q2 [example_h1 0] 64800 = 5.0"
  using compute_priority_unseen [of "[example_h1 0]" example_q2 64800]
  by (simp add: example_q2_def example_h1_def)

text \<open>
  Claim C8. For a seen question, the score evaluated at \<open>now\<close> equal to the maximum
  timestamp among the matching records is exactly \<open>0\<close>.
\<close>

theorem compute_priority_zero_at_last:
  assumes "filter (\<lambda>h. question_id h = id_q question) history \<noteq> []"
  shows "compute_priority question history
           (Max (timestamp ` set (filter (\<lambda>h. question_id h = id_q question) history))) = 0"
proof -
  obtain l where l: "last_seen history (id_q question) = Some l"
    using assms last_seen_None [of history "id_q question"]
    by (cases "last_seen history (id_q question)") auto
  show ?thesis
    unfolding compute_priority_seen [OF l] last_seen_timestamp_Max [OF l, symmetric] by simp
qed

theorem compute_priority_zero_at_last_witness:
  "filter (\<lambda>h. question_id h = id_q example_q1) [example_h1 100] \<noteq> []
   \<and> compute_priority example_q1 [example_h1 100] 100 = 0"
  using compute_priority_zero_at_last [of example_q1 "[example_h1 100]"]
  by (simp add: example_q1_def example_h1_def)

text \<open>
  Claim C2. For a seen question the score is
  \<open>(1 + tricky_bonus + slow_penalty) * miss_factor * (1 - decay)\<close>, where the miss factor
  is computed from the totals over the matching records, and the slow penalty and the
  decay from a matching record \<open>l\<close> of maximum timestamp.
\<close>

theorem compute_priority_formula:
  assumes "filter (\<lambda>h. question_id h = id_q question) history \<noteq> []"
  shows "\<exists>l\<in>set (filter (\<lambda>h. question_id h = id_q question) history).
     (\<forall>r\<in>set (filter (\<lambda>h. question_id h = id_q question) history). timestamp r \<le> timestamp l)
     \<and> compute_priority question history now =
        (let matching = filter (\<lambda>h. question_id h = id_q question) history;
             tricky_bonus = (if ''tricky'' \<in> set (tags question) then 0.25 else 0);
             attempts_total = real_of_int (sum_list (map attempts matching));
             incorrect_total = real (length (filter (\<lambda>h. \<not> correct h) matching));
             miss_factor = 1.0 + incorrect_total * 1.2 + max 0 (attempts_total - incorrect_total) * 0.2;
             slow_penalty = min 1.5 (seconds l / 4.0);
             decay = exp (((now - timestamp l) / 3600) * ln 0.5 / 18)
         in (1 + tricky_bonus + slow_penalty) * miss_factor * (1 - decay))"
proof -
  obtain l where l: "last_seen history (id_q question) = Some l"
    using assms last_seen_None [of history "id_q question"]
    by (cases "last_seen history (id_q question)") auto
  have flt: "filter (\<lambda>h. \<not> correct h) (filter (\<lambda>h. question_id h = id_q question) history)
      = filter (\<lambda>h. question_id h = id_q question \<and> \<not> correct h) history"
    by (simp add: conj_commute)
  have mx: "real_of_int (max 0 (a - int n)) = max 0 (real_of_int a - real n)" for a n
    by (simp add: max_def)
  show ?thesis
  proof (intro bexI [of _ l] conjI ballI)
    show "l \<in> set (filter (\<lambda>h. question_id h = id_q question) history)"
      by (rule last_seen_Some(1) [OF l])
    show "timestamp r \<le> timestamp l"
      if "r \<in> set (filter (\<lambda>h. question_id h = id_q question) history)" for r
      using that by (rule last_seen_Some(2) [OF l])
    show "compute_priority question history now =
        (let matching = filter (\<lambda>h. question_id h = id_q question) history;
             tricky_bonus = (if ''tricky'' \<in> set (tags question) then 0.25 else 0);
             attempts_total = real_of_int (sum_list (map attempts matching));
             incorrect_total = real (length (filter (\<lambda>h. \<not> correct h) matching));
             miss_factor = 1.0 + incorrect_total * 1.2 + max 0 (attempts_total - incorrect_total) * 0.2;
             slow_penalty = min 1.5 (seconds l / 4.0);
             decay = exp (((now - timestamp l) / 3600) * ln 0.5 / 18)
         in (1 + tricky_bonus + slow_penalty) * miss_factor * (1 - decay))"
      unfolding compute_priority_seen [OF l] Let_def flt mx by simp
  qed
qed

theorem compute_priority_formula_witness:
  "filter (\<lambda>h. question_id h = id_q example_q1) [example_h1 0] \<noteq> []
   \<and> compute_priority example_q1 [example_h1 0] 64800 = 2.7"
  using compute_priority_formula [of example_q1 "[example_h1 0]" 64800]
  by (simp add: example_q1_def example_h1_def)

subsection \<open>Monotonicity\<close>

lemma decay_mono_hours:
  fixes h1 h2 :: real
  assumes "h1 \<le> h2"
  shows "1 - exp (h1 * ln 0.5 / 18) \<le> 1 - exp (h2 * ln 0.5 / 18)"
proof -
  have neg: "ln (0.5::real) / 18 \<le> 0" by simp
  have "h2 * (ln 0.5 / 18) \<le> h1 * (ln 0.5 / 18)"
    using assms neg by (rule mult_right_mono_neg)
  then show ?thesis by simp
qed

lemma decay_le_one:
  fixes now t :: real
  assumes "t \<le> now"
  shows "0 \<le> 1 - exp ((now - t) / 3600 * ln 0.5 / 18)"
proof -
  have "0 \<le> (now - t) / 3600" using assms by simp
  from decay_mono_hours [OF this] show ?thesis by simp
qed

lemma tricky_slow_pos:
  assumes "0 \<le> seconds l"
  shows "0 \<le> 1 + (if ''tricky'' \<in> set (tags q) then 0.25 else 0) + min 1.5 (seconds l / 4)"
  using assms by (simp add: min_def)

lemma miss_factor_pos:
  fixes a :: int and n :: nat
  shows "0 \<le> 1 + real_of_int (int n) * 1.2 + real_of_int (max 0 (a - int n)) * 0.2"
proof -
  have "0 \<le> real_of_int (max 0 (a - int n))" by simp
  then show ?thesis by simp
qed

lemma miss_factor_mono:
  fixes a i1 i2 :: int
  assumes "i1 \<le> i2"
  shows "1 + real_of_int i1 * 1.2 + real_of_int (max 0 (a - i1)) * 0.2
       \<le> 1 + real_of_int i2 * 1.2 + real_of_int (max 0 (a - i2)) * 0.2"
proof -
  have "max 0 (a - i1) \<le> max 0 (a - i2) + (i2 - i1)" using assms by simp
  then have "real_of_int (max 0 (a - i1)) \<le> real_of_int (max 0 (a - i2)) + real_of_int (i2 - i1)"
    by (metis of_int_add of_int_le_iff)
  moreover have "0 \<le> real_of_int (i2 - i1)" using assms by simp
  ultimately show ?thesis by simp
qed

lemma compute_priority_seen_named:
  assumes "last_seen history (id_q q) = Some l"
  shows "compute_priority q history now =
    (1 + tricky_bonus q + slow_penalty l) * miss_factor q history
    * (1 - exp (hours_since now l * ln 0.5 / 18))"
  using assms
  by (simp add: compute_priority_def tricky_bonus_def slow_penalty_def miss_factor_def
      hours_since_def Let_def)

lemma tricky_slow_nonneg:
  assumes "0 \<le> seconds l"
  shows "0 \<le> 1 + tricky_bonus q + slow_penalty l"
  using assms by (simp add: tricky_bonus_def slow_penalty_def min_def)

lemma miss_factor_nonneg: "0 \<le> miss_factor q history"
  using miss_factor_pos [of "length (filter (\<lambda>h. question_id h = id_q q \<and> \<not> correct h) history)"
      "sum_list (map attempts (filter (\<lambda>h. question_id h = id_q q) history))"]
  by (simp add: miss_factor_def Let_def)

text \<open>
  Claim C6. For two seen situations with the same tricky bonus, slow penalty and miss
  factor, the seconds of the most recent record not negative, the score does not
  decrease when \<open>hours_since\<close> grows; in particular for one question and one history as
  \<open>now\<close> advances.
\<close>

theorem compute_priority_mono_hours:
  assumes "last_seen history1 (id_q question1) = Some l1"
    and "last_seen history2 (id_q question2) = Some l2"
    and "tricky_bonus question1 = tricky_bonus question2"
    and "slow_penalty l1 = slow_penalty l2"
    and "miss_factor question1 history1 = miss_factor question2 history2"
    and "0 \<le> seconds l1"
    and "hours_since now1 l1 \<le> hours_since now2 l2"
  shows "compute_priority question1 history1 now1 \<le> compute_priority question2 history2 now2"
  unfolding compute_priority_seen_named [OF assms(1)] compute_priority_seen_named [OF assms(2)]
    assms(3) [symmetric] assms(4) [symmetric] assms(5) [symmetric]
  by (intro mult_left_mono mult_nonneg_nonneg decay_mono_hours assms(7) tricky_slow_nonneg
      assms(6) miss_factor_nonneg)

theorem compute_priority_mono_hours_witness:
  "last_seen [example_h1 0] (id_q example_q1) = Some (example_h1 0)
   \<and> last_seen [example_orphan, example_h1 3600] (id_q example_q1) = Some (example_h1 3600)
   \<and> (0::real) \<le> seconds (example_h1 0)
   \<and> hours_since 7200 (example_h1 0) \<le> hours_since 64800 (example_h1 3600)
   \<and> compute_priority example_q1 [example_h1 0] 7200
       \<le> compute_priority example_q1 [example_orphan, example_h1 3600] 64800"
  using compute_priority_mono_hours [of "[example_h1 0]" example_q1 "example_h1 0"
      "[example_orphan, example_h1 3600]" example_q1 "example_h1 3600" 7200 64800]
  by (simp add: last_seen_def example_h1_def example_q1_def example_orphan_def
      slow_penalty_def miss_factor_def hours_since_def)

text \<open>
  Claim C7. With the total of attempts, the seconds and the timestamp of the most recent
  record, \<open>now\<close> and the tags held fixed, \<open>now\<close> not before that timestamp and the
  seconds not negative, a history with more incorrect matching records scores at least
  as much.
\<close>

theorem compute_priority_mono_incorrect:
  assumes "last_seen h1 (id_q question) = Some l1"
    and "last_seen h2 (id_q question) = Some l2"
    and "seconds l1 = seconds l2" and "timestamp l1 = timestamp l2"
    and "sum_list (map attempts (filter (\<lambda>h. question_id h = id_q question) h1))
       = sum_list (map attempts (filter (\<lambda>h. question_id h = id_q question) h2))"
    and "length (filter (\<lambda>h. question_id h = id_q question \<and> \<not> correct h) h1)
       \<le> length (filter (\<lambda>h. question_id h = id_q question \<and> \<not> correct h) h2)"
    and "timestamp l1 \<le> now" and "0 \<le> seconds l1"
  shows "compute_priority question h1 now \<le> compute_priority question h2 now"
proof -
  have le: "int (length (filter (\<lambda>h. question_id h = id_q question \<and> \<not> correct h) h1))
       \<le> int (length (filter (\<lambda>h. question_id h = id_q question \<and> \<not> correct h) h2))"
    using assms(6) by simp
  show ?thesis
    unfolding compute_priority_seen [OF assms(1)] compute_priority_seen [OF assms(2)]
      assms(3)[symmetric] assms(4)[symmetric] assms(5)[symmetric]
    by (intro mult_right_mono mult_left_mono miss_factor_mono le tricky_slow_pos assms(8)
        decay_le_one assms(7))
qed

theorem compute_priority_mono_incorrect_witness:
  "last_seen [example_h1_correct 0] (id_q example_q1) = Some (example_h1_correct 0)
   \<and> last_seen [example_h1 0] (id_q example_q1) = Some (example_h1 0)
   \<and> timestamp (example_h1_correct 0) \<le> 64800
   \<and> (0::real) \<le> seconds (example_h1_correct 0)
   \<and> compute_priority example_q1 [example_h1_correct 0] 64800
       \<le> compute_priority example_q1 [example_h1 0] 64800"
  using compute_priority_mono_incorrect [of "[example_h1_correct 0]" example_q1
      "example_h1_correct 0" "[example_h1 0]" "example_h1 0" 64800]
  by (simp add: last_seen_def example_h1_def example_h1_correct_def example_q1_def)

subsection \<open>Records of other questions\<close>

lemma compute_priority_matching_cong:
  assumes "filter (\<lambda>h. question_id h = id_q q) h1 = filter (\<lambda>h. question_id h = id_q q) h2"
  shows "compute_priority q h1 now = compute_priority q h2 now"
proof -
  have split: "filter (\<lambda>h. question_id h = id_q q \<and> \<not> correct h) hs
      = filter (\<lambda>h. \<not> correct h) (filter (\<lambda>h. question_id h = id_q q) hs)" for hs
    by (simp add: conj_commute)
  have "last_seen h1 (id_q q) = last_seen h2 (id_q q)"
    by (simp add: last_seen_def assms)
  then show ?thesis
    unfolding compute_priority_def split assms by simp
qed

lemma select_next_question_cong:
  assumes "\<forall>q\<in>set qs. compute_priority q h1 now = compute_priority q h2 now"
  shows "select_next_question qs h1 now = select_next_question qs h2 now"
proof -
  have eq: "map (\<lambda>q. (compute_priority q h1 now, q)) qs
      = map (\<lambda>q. (compute_priority q h2 now, q)) qs"
    using assms by (intro map_cong) auto
  show ?thesis unfolding select_next_question_def eq by (rule refl)
qed

lemma filter_keep_matching:
  assumes "\<forall>r\<in>set h. question_id r = k \<longrightarrow> keep r"
  shows "filter (\<lambda>r. question_id r = k) (filter keep h) = filter (\<lambda>r. question_id r = k) h"
  using assms by (induction h) auto

text \<open>
  Claim C10. The score of a question depends only on the records whose \<open>question_id\<close> is
  its id: two histories with the same matching records give the same score; histories
  that agree so for every question of the bank give the same selection; and dropping
  records that match no question of the bank (\<open>keep\<close> retains at least every record that
  matches one) changes no score and not the selection.
\<close>

theorem orphan_history_noninterference:
  "(filter (\<lambda>h. question_id h = id_q q) h1 = filter (\<lambda>h. question_id h = id_q q) h2
      \<longrightarrow> compute_priority q h1 now = compute_priority q h2 now)
   \<and> ((\<forall>q\<in>set qs. filter (\<lambda>h. question_id h = id_q q) h1
                     = filter (\<lambda>h. question_id h = id_q q) h2)
      \<longrightarrow> select_next_question qs h1 now = select_next_question qs h2 now)
   \<and> ((\<forall>r\<in>set h. (\<exists>q\<in>set qs. question_id r = id_q q) \<longrightarrow> keep r)
      \<longrightarrow> (\<forall>q\<in>set qs. compute_priority q (filter keep h) now = compute_priority q h now)
          \<and> select_next_question qs (filter keep h) now = select_next_question qs h now)"
proof (intro conjI impI)
  assume "filter (\<lambda>h. question_id h = id_q q) h1 = filter (\<lambda>h. question_id h = id_q q) h2"
  then show "compute_priority q h1 now = compute_priority q h2 now"
    by (rule compute_priority_matching_cong)
next
  assume "\<forall>q\<in>set qs. filter (\<lambda>h. question_id h = id_q q) h1
                     = filter (\<lambda>h. question_id h = id_q q) h2"
  then have "\<forall>q\<in>set qs. compute_priority q h1 now = compute_priority q h2 now"
    by (auto intro: compute_priority_matching_cong)
  then show "select_next_question qs h1 now = select_next_question qs h2 now"
    by (rule select_next_question_cong)
next
  assume keep: "\<forall>r\<in>set h. (\<exists>q\<in>set qs. question_id r = id_q q) \<longrightarrow> keep r"
  have same: "compute_priority q (filter keep h) now = compute_priority q h now" if "q \<in> set qs" for q
  proof (rule compute_priority_matching_cong)
    have "\<forall>r\<in>set h. question_id r = id_q q \<longrightarrow> keep r" using keep that by blast
    then show "filter (\<lambda>h. question_id h = id_q q) (filter keep h)
        = filter (\<lambda>h. question_id h = id_q q) h"
      by (rule filter_keep_matching)
  qed
  then show "\<forall>q\<in>set qs. compute_priority q (filter keep h) now = compute_priority q h now"
    by blast
  from same show "select_next_question qs (filter keep h) now = select_next_question qs h now"
    by (intro select_next_question_cong) blast
qed

theorem orphan_history_noninterference_witness:
  "compute_priority example_q1 [example_h1 0] 64800 = compute_priority example_q1 [example_orphan, example_h1 0] 64800
   \<and> select_next_question [example_q1, example_q2] [example_h1 0] 64800
     = select_next_question [example_q1, example_q2] [example_orphan, example_h1 0] 64800"
  using orphan_history_noninterference [of example_q1 "[example_h1 0]" "[example_orphan, example_h1 0]" 64800
     "[example_q1, example_q2]" "[example_orphan, example_h1 0]" "\<lambda>r. question_id r \<noteq> ''gone''"]
  by (simp add: example_q1_def example_q2_def example_h1_def example_orphan_def)

section \<open>Properties of the selection\<close>

lemma hd_insort_key:
  "hd (insort_key g x ys) = (if ys = [] \<or> g x \<le> g (hd ys) then x else hd ys)"
  by (cases ys) auto

lemma sort_key_Nil_iff: "sort_key g xs = [] \<longleftrightarrow> xs = []"
  by (metis length_sort list.size(3) length_0_conv)

lemma hd_sort_key_first_min:
  fixes g :: "'a \<Rightarrow> real"
  assumes "xs \<noteq> []"
  shows "\<exists>i<length xs. hd (sort_key g xs) = xs ! i
           \<and> (\<forall>j<length xs. g (xs ! i) \<le> g (xs ! j))
           \<and> (\<forall>j<i. g (xs ! i) < g (xs ! j))"
  using assms
proof (induction xs)
  case Nil then show ?case by simp
next
  case (Cons x xs)
  show ?case
  proof (cases "xs = []")
    case True
    then show ?thesis by simp
  next
    case False
    then obtain i where i: "i < length xs" "hd (sort_key g xs) = xs ! i"
      and mn: "\<forall>j<length xs. g (xs ! i) \<le> g (xs ! j)"
      and fst: "\<forall>j<i. g (xs ! i) < g (xs ! j)"
      using Cons.IH by blast
    have ne: "sort_key g xs \<noteq> []" using False by (simp add: sort_key_Nil_iff)
    have hd: "hd (sort_key g (x # xs)) = (if g x \<le> g (xs ! i) then x else xs ! i)"
      using ne i(2) by (simp add: hd_insort_key)
    show ?thesis
    proof (cases "g x \<le> g (xs ! i)")
      case True
      have "\<forall>j<length (x # xs). g x \<le> g ((x # xs) ! j)"
      proof (intro allI impI)
        fix j assume "j < length (x # xs)"
        then show "g x \<le> g ((x # xs) ! j)"
          using True mn by (cases j) (auto intro: order_trans)
      qed
      with True hd show ?thesis by (intro exI [of _ 0]) simp
    next
      case gt: False
      have a: "\<forall>j<length (x # xs). g ((x # xs) ! Suc i) \<le> g ((x # xs) ! j)"
      proof (intro allI impI)
        fix j assume "j < length (x # xs)"
        then show "g ((x # xs) ! Suc i) \<le> g ((x # xs) ! j)"
          using gt mn by (cases j) auto
      qed
      have b: "\<forall>j<Suc i. g ((x # xs) ! Suc i) < g ((x # xs) ! j)"
      proof (intro allI impI)
        fix j assume "j < Suc i"
        then show "g ((x # xs) ! Suc i) < g ((x # xs) ! j)"
          using gt fst by (cases j) auto
      qed
      from gt hd i(1) a b show ?thesis by (intro exI [of _ "Suc i"]) simp
    qed
  qed
qed

text \<open>
  Claim C1. On a non-empty bank, with the one value \<open>now\<close> used for every score,
  \<open>select_next_question\<close> returns the question at a position \<open>i\<close> whose score is
  maximal and strictly greater than the score at every earlier position: the earliest
  question of maximum score. The result is a function of the bank, the history and
  \<open>now\<close>, so equal inputs give the same question.
\<close>

theorem select_next_question_first_max:
  assumes "questions \<noteq> []"
  shows "\<exists>i<length questions.
           select_next_question questions history now = Inr (questions ! i)
           \<and> (\<forall>j<length questions. compute_priority (questions ! j) history now
                                   \<le> compute_priority (questions ! i) history now)
           \<and> (\<forall>j<i. compute_priority (questions ! j) history now
                      < compute_priority (questions ! i) history now)"
proof -
  let ?scored = "map (\<lambda>q. (compute_priority q history now, q)) questions"
  have ne: "?scored \<noteq> []" using assms by simp
  obtain i where i: "i < length ?scored"
    and h: "hd (sort_key (\<lambda>x. - fst x) ?scored) = ?scored ! i"
    and mn: "\<forall>j<length ?scored. - fst (?scored ! i) \<le> - fst (?scored ! j)"
    and fs: "\<forall>j<i. - fst (?scored ! i) < - fst (?scored ! j)"
    using hd_sort_key_first_min [OF ne, of "\<lambda>x. - fst x"] by blast
  have il: "i < length questions" using i by simp
  have "sort_key (\<lambda>x. - fst x) ?scored \<noteq> []" using ne by (simp add: sort_key_Nil_iff)
  then have sel: "select_next_question questions history now = Inr (snd (hd (sort_key (\<lambda>x. - fst x) ?scored)))"
    by (cases "sort_key (\<lambda>x. - fst x) ?scored") (simp_all add: select_next_question_def sort_reverse_def)
  have "select_next_question questions history now = Inr (questions ! i)"
    unfolding sel h using il by simp
  moreover have "\<forall>j<length questions. compute_priority (questions ! j) history now
                                   \<le> compute_priority (questions ! i) history now"
    using mn il by simp
  moreover have "\<forall>j<i. compute_priority (questions ! j) history now
                      < compute_priority (questions ! i) history now"
    using fs il by simp
  ultimately show ?thesis using il by blast
qed

theorem select_next_question_first_max_witness:
  "[example_q2, example_q1, example_q3] \<noteq> []
   \<and> select_next_question [example_q2, example_q1, example_q3] [] 0 = Inr example_q1"
proof -
  let ?qs = "[example_q2, example_q1, example_q3]"
  have ne: "?qs \<noteq> []" by simp
  obtain i where i: "i < length ?qs"
    and sel: "select_next_question ?qs [] 0 = Inr (?qs ! i)"
    and mx: "\<forall>j<length ?qs. compute_priority (?qs ! j) [] 0 \<le> compute_priority (?qs ! i) [] 0"
    and fs: "\<forall>j<i. compute_priority (?qs ! j) [] 0 < compute_priority (?qs ! i) [] 0"
    using select_next_question_first_max [OF ne, of "[]" 0] by blast
  from i consider "i = 0" | "i = 1" | "i = 2" by force
  then have "i = 1"
  proof cases
    case 1
    have "(1::nat) < length ?qs" by simp
    from mx [rule_format, OF this] 1 show ?thesis by (simp add: example_scores)
  next
    case 2 then show ?thesis .
  next
    case 3
    then have "(1::nat) < i" by simp
    from fs [rule_format, OF this] 3 show ?thesis by (simp add: example_scores)
  qed
  with sel ne show ?thesis by simp
qed

section \<open>Properties of loading and recording\<close>

subsection \<open>Error conditions\<close>

lemma Question_from_dict_not_missing: "Question_from_dict raw \<noteq> Inl FileNotFoundError"
  by (simp add: Question_from_dict_def split: json.splits option.splits)

lemma load_questions_loop_not_missing: "load_questions_loop L ls \<noteq> Inl FileNotFoundError"
proof (induction ls)
  case Nil show ?case by simp
next
  case (Cons l ls)
  then show ?case
    using Question_from_dict_not_missing
    by (auto simp: Let_def split: option.splits sum.splits)
qed

lemma select_next_question_Nil: "select_next_question [] history now = Inl IndexError"
  by (simp add: select_next_question_def sort_reverse_def)

lemma select_next_question_Cons: "\<exists>q. select_next_question (x # xs) history now = Inr q"
proof -
  let ?scored = "map (\<lambda>q. (compute_priority q history now, q)) (x # xs)"
  have "length (sort_reverse fst ?scored) = length ?scored" by (simp add: sort_reverse_def)
  then obtain y ys where "sort_reverse fst ?scored = y # ys"
    by (cases "sort_reverse fst ?scored") auto
  then show ?thesis by (simp add: select_next_question_def)
qed

text \<open>
  Claim C4. \<open>select_next_question\<close> raises the \<open>IndexError\<close> of \<open>scored[0]\<close> exactly
  when the bank is empty; \<open>load_questions\<close> raises \<open>FileNotFoundError\<close> exactly when the
  bank file is absent; \<open>load_history\<close> of an absent file returns the empty list and raises
  nothing.
\<close>

theorem error_conditions:
  "(select_next_question questions history now = Inl IndexError \<longleftrightarrow> questions = [])
   \<and> (load_questions L path = Inl FileNotFoundError \<longleftrightarrow> path = None)
   \<and> load_history L clock None = Inr (Some [])"
proof (intro conjI)
  show "select_next_question questions history now = Inl IndexError \<longleftrightarrow> questions = []"
  proof (cases questions)
    case Nil then show ?thesis by (simp add: select_next_question_Nil)
  next
    case (Cons x xs)
    then show ?thesis using select_next_question_Cons [of x xs history now] by auto
  qed
  show "load_questions L path = Inl FileNotFoundError \<longleftrightarrow> path = None"
    by (cases path) (simp_all add: load_questions_def load_questions_loop_not_missing)
  show "load_history L clock None = Inr (Some [])" by (simp add: load_history_def)
qed

theorem error_conditions_witness:
  "select_next_question [] [example_h1 0] 0 = Inl IndexError
   \<and> select_next_question [example_q1] [example_h1 0] 0 = Inr example_q1
   \<and> load_questions example_lib None = Inl FileNotFoundError
   \<and> load_questions example_lib (Some []) = Inr (Some [])
   \<and> load_history example_lib (\<lambda>k. 0) None = Inr (Some [])"
  using error_conditions [of "[]" "[example_h1 0]" 0 example_lib None "\<lambda>k. 0"]
    error_conditions [of "[example_q1]" "[example_h1 0]" 0 example_lib "Some []" "\<lambda>k. 0"]
  by (simp add: select_next_question_def sort_reverse_def load_questions_def)

subsection \<open>Lines of a file and their loading\<close>

lemma char_facts: "isspace LF" "isspace CR" "\<not> isspace (CHR ''{'')" "\<not> isspace (CHR ''}'')"
  by (simp_all add: isspace_def)

lemma universal_newlines_append:
  assumes "b = [] \<or> hd b \<noteq> LF"
  shows "universal_newlines (a @ b) = universal_newlines a @ universal_newlines b"
  using assms
proof (induction a rule: universal_newlines.induct)
  case 1 show ?case by simp
next
  case (2 x)
  then show ?case by (cases b) auto
next
  case (3 x y cs)
  then show ?case by auto
qed

lemma universal_newlines_id: "CR \<notin> set b \<Longrightarrow> universal_newlines b = b"
  by (induction b rule: universal_newlines.induct) auto

lemma universal_newlines_ends_LF: "\<exists>u. universal_newlines (s @ [LF]) = u @ [LF]"
proof (induction s rule: universal_newlines.induct)
  case 1 show ?case by simp
next
  case (2 a) show ?case by simp
next
  case (3 a b cs)
  show ?case
  proof (cases "a = CR \<and> b = LF")
    case True
    with 3(1) obtain u where "universal_newlines (cs @ [LF]) = u @ [LF]" by blast
    with True show ?thesis by simp
  next
    case False
    with 3(2,3) obtain u where u: "universal_newlines ((b # cs) @ [LF]) = u @ [LF]" by blast
    show ?thesis
    proof (cases "a = CR")
      case True
      with False u show ?thesis by (intro exI [of _ "LF # u"]) simp
    next
      case False
      with u show ?thesis by (intro exI [of _ "a # u"]) simp
    qed
  qed
qed

lemma file_lines_Nil_iff: "file_lines s = [] \<longleftrightarrow> s = []"
  by (cases s) (auto split: list.splits)

lemma file_lines_append_LF:
  "file_lines (u @ [LF] @ v) = file_lines (u @ [LF]) @ file_lines v"
proof (induction u)
  case Nil show ?case by simp
next
  case (Cons c u)
  have ne: "file_lines (u @ [LF]) \<noteq> []" by (simp add: file_lines_Nil_iff)
  then obtain l ls where l: "file_lines (u @ [LF]) = l # ls" by (cases "file_lines (u @ [LF])") auto
  show ?case using Cons l by simp
qed

lemma file_lines_single:
  assumes "d \<noteq> []" and "LF \<notin> set d"
  shows "file_lines (d @ [LF]) = [d @ [LF]]"
  using assms by (induction d rule: list_nonempty_induct) auto

lemma strip_line:
  assumes "d \<noteq> []" and "\<not> isspace (hd d)" and "\<not> isspace (last d)"
  shows "strip (d @ [LF]) = d"
proof -
  have front: "dropWhile isspace (d @ [LF]) = d @ [LF]"
    using assms(1,2) by (cases d) auto
  have rear: "dropWhile isspace (rev d) = rev d"
    using assms(1,3) by (cases "rev d") (auto simp: last_rev [symmetric] hd_rev)
  show ?thesis by (simp add: strip_def front rear char_facts)
qed

lemma load_history_loop_append:
  assumes "load_history_loop L clock k as = Inr (Some hs)"
    and "\<And>j. load_history_loop L clock j bs = Inr (Some hs')"
  shows "load_history_loop L clock k (as @ bs) = Inr (Some (hs @ hs'))"
  using assms(1)
proof (induction as arbitrary: hs k)
  case Nil then show ?case using assms(2) by simp
next
  case (Cons a as)
  show ?case
  proof (cases "strip a = []")
    case True
    with Cons show ?thesis by simp
  next
    case False
    with Cons.prems obtain raw h hs0 where raw: "json_loads L (strip a) = Some raw"
      and h: "History_from_dict L (clock k) raw = Inr (Some h)"
      and rest: "load_history_loop L clock (Suc k) as = Inr (Some hs0)" and hs: "hs = h # hs0"
      by (auto simp: Let_def split: option.splits sum.splits)
    have "load_history_loop L clock (Suc k) (as @ bs) = Inr (Some (hs0 @ hs'))"
      using rest by (rule Cons.IH)
    with False raw h hs show ?thesis by simp
  qed
qed

lemma History_from_dict_entry:
  "History_from_dict L now (entry qid n secs ok t)
     = Inr (Some \<lparr>question_id = qid, attempts = n, seconds = secs, correct = ok, timestamp = t\<rparr>)"
  by (simp add: History_from_dict_def entry_def dict_get_def)

subsection \<open>Malformed and incomplete lines of the history\<close>

lemma load_history_loop_Inr_lines:
  assumes "load_history_loop L clock k ls = Inr r" and "line \<in> set ls" and "strip line \<noteq> []"
  shows "\<exists>raw now h. json_loads L (strip line) = Some raw \<and> History_from_dict L now raw = Inr h"
  using assms
proof (induction ls arbitrary: r k)
  case Nil then show ?case by simp
next
  case (Cons l ls)
  show ?case
  proof (cases "line = l")
    case True
    with Cons.prems show ?thesis
      by (auto simp: Let_def split: option.splits sum.splits)
  next
    case False
    then have mem: "line \<in> set ls" using Cons.prems(2) by simp
    have "\<exists>r' k'. load_history_loop L clock k' ls = Inr r'"
      using Cons.prems(1) by (auto simp: Let_def split: if_splits option.splits sum.splits)
    then obtain r' k' where "load_history_loop L clock k' ls = Inr r'" by blast
    then show ?thesis using mem Cons.prems(3) by (rule Cons.IH)
  qed
qed

lemma History_from_dict_not_dict: "(\<forall>kvs. raw \<noteq> JDict kvs) \<Longrightarrow> History_from_dict L now raw = Inl TypeError"
  by (cases raw) (simp_all add: History_from_dict_def)

lemma History_from_dict_no_id:
  "map_of kvs ''question_id'' = None \<Longrightarrow> History_from_dict L now (JDict kvs) = Inl KeyError"
  by (simp add: History_from_dict_def)

lemma py_int_errors: "py_int L v = Inl e \<Longrightarrow> e = TypeError \<or> e = ValueError"
  by (cases v) (auto split: option.splits)

lemma py_float_errors: "py_float L v = Inl e \<Longrightarrow> e = TypeError \<or> e = ValueError"
  by (cases v) (auto split: option.splits)

lemma History_from_dict_errors:
  assumes "History_from_dict L now raw = Inl e"
  shows "e = KeyError \<or> e = TypeError \<or> e = ValueError"
proof (cases raw)
  case (JDict kvs)
  with assms show ?thesis
    by (auto simp: History_from_dict_def Let_def split: option.splits sum.splits
        dest: py_int_errors py_float_errors)
qed (use assms in \<open>simp_all add: History_from_dict_def\<close>)

lemma load_history_loop_errors:
  assumes "load_history_loop L clock k ls = Inl e"
  shows "e = JSONDecodeError \<or> e = KeyError \<or> e = TypeError \<or> e = ValueError"
  using assms
proof (induction ls arbitrary: k)
  case Nil then show ?case by simp
next
  case (Cons l ls)
  show ?case
  proof (cases "strip l = []")
    case True
    with Cons show ?thesis by simp
  next
    case False
    show ?thesis
    proof (cases "json_loads L (strip l)")
      case None
      with False Cons.prems show ?thesis by simp
    next
      case (Some raw)
      show ?thesis
      proof (cases "History_from_dict L (clock k) raw")
        case (Inl e')
        with False Some Cons.prems have "e = e'" by simp
        with Inl History_from_dict_errors show ?thesis by blast
      next
        case (Inr h)
        with False Some Cons.prems have "load_history_loop L clock (Suc k) ls = Inl e"
          by (simp split: sum.splits)
        then show ?thesis by (rule Cons.IH)
      qed
    qed
  qed
qed

lemma load_history_loop_first_raise:
  assumes "\<forall>l\<in>set pre. strip l = []
             \<or> (\<exists>raw. json_loads L (strip l) = Some raw
                      \<and> (\<forall>t. \<exists>h. History_from_dict L t raw = Inr h))"
    and "strip line \<noteq> []"
    and "case json_loads L (strip line) of
           None \<Rightarrow> e = JSONDecodeError
         | Some raw \<Rightarrow> \<forall>t. History_from_dict L t raw = Inl e"
  shows "load_history_loop L clock k (pre @ line # post) = Inl e"
  using assms(1)
proof (induction pre arbitrary: k)
  case Nil
  show ?case using assms(2,3) by (simp split: option.splits)
next
  case (Cons l pre)
  then have ih: "load_history_loop L clock j (pre @ line # post) = Inl e" for j by simp
  show ?case
  proof (cases "strip l = []")
    case True
    then show ?thesis using ih by simp
  next
    case False
    with Cons.prems obtain raw where raw: "json_loads L (strip l) = Some raw"
      and ok: "\<forall>t. \<exists>h. History_from_dict L t raw = Inr h" by auto
    from ok obtain h where "History_from_dict L (clock k) raw = Inr h" by blast
    with False raw ih show ?thesis by simp
  qed
qed

lemma load_history_loop_skips_blank:
  "load_history_loop L clock k ls = load_history_loop L clock k (filter (\<lambda>l. strip l \<noteq> []) ls)"
proof (induction ls arbitrary: k)
  case Nil show ?case by simp
next
  case (Cons l ls)
  show ?case
  proof (cases "strip l = []")
    case True
    then show ?thesis using Cons.IH [of k] by simp
  next
    case False
    then show ?thesis using Cons.IH [of "Suc k"] by (simp only: load_history_loop.simps Let_def filter.simps if_True if_False not_False_eq_True)
  qed
qed

lemma History_from_dict_fields:
  assumes "map_of kvs ''question_id'' = Some (JStr qid)"
    and "case map_of kvs ''attempts'' of None \<Rightarrow> a = 1 | Some v \<Rightarrow> py_int L v = Inr a"
    and "case map_of kvs ''seconds'' of None \<Rightarrow> s = 0 | Some v \<Rightarrow> py_float L v = Inr s"
    and "case map_of kvs ''correct'' of None \<Rightarrow> c = False | Some v \<Rightarrow> c = py_bool v"
    and "case map_of kvs ''timestamp'' of None \<Rightarrow> t = now | Some v \<Rightarrow> py_float L v = Inr t"
  shows "History_from_dict L now (JDict kvs)
       = Inr (Some \<lparr>question_id = qid, attempts = a, seconds = s, correct = c, timestamp = t\<rparr>)"
  using assms by (simp add: History_from_dict_def dict_get_def split: option.splits)

lemma example_line_loads:
  "json_loads example_lib (strip (example_line @ [LF])) = Some (entry ''q1'' 2 4.0 False 100.0)"
  by (simp add: strip_def isspace_def example_lib_def example_line_def)

lemma example_lines:
  "file_lines (universal_newlines (example_line @ [LF] @ bad @ [LF]))
     = [example_line @ [LF]] @ (bad @ [LF]) # []"
  if "bad \<noteq> []" and "LF \<notin> set bad" and "CR \<notin> set bad" and "hd bad \<noteq> LF" for bad
proof -
  have cr: "CR \<notin> set (example_line @ [LF] @ bad @ [LF])"
    using that(3) by (simp add: example_line_def)
  have "file_lines (example_line @ [LF] @ (bad @ [LF]))
      = file_lines (example_line @ [LF]) @ file_lines (bad @ [LF])"
    by (rule file_lines_append_LF)
  moreover have "file_lines (example_line @ [LF]) = [example_line @ [LF]]"
    by (rule file_lines_single) (simp_all add: example_line_def)
  moreover have "file_lines (bad @ [LF]) = [bad @ [LF]]"
    using that(1,2) by (rule file_lines_single)
  ultimately have "file_lines (example_line @ [LF] @ bad @ [LF])
      = [example_line @ [LF]] @ (bad @ [LF]) # []" by simp
  then show ?thesis by (simp only: universal_newlines_id [OF cr])
qed

text \<open>
  Claim C5, as the code has it. A history holding a line that is not blank and that
  \<open>json.loads\<close> rejects, or that decodes to something other than an object, or to an
  object without \<open>question_id\<close>, makes \<open>load_history\<close> raise \<open>JSONDecodeError\<close>,
  \<open>TypeError\<close>, \<open>KeyError\<close> or \<open>ValueError\<close>, so that no list is returned. What is raised
  is the exception of the first line that raises: when every line before the line
  \<open>first\<close> is blank or loads, it is \<open>JSONDecodeError\<close> when \<open>json.loads\<close> rejects
  \<open>first\<close>, \<open>TypeError\<close> when \<open>first\<close> is not an object and \<open>KeyError\<close> when it lacks
  \<open>question_id\<close>. Blank lines are skipped: the load is the loop over the lines that are
  not blank. Each of \<open>attempts\<close>, \<open>seconds\<close>, \<open>correct\<close> and \<open>timestamp\<close> that an object
  lacks is completed with \<open>1\<close>, \<open>0.0\<close>, \<open>False\<close> and the current time: an object whose
  \<open>question_id\<close> is a string and whose present fields convert loads as the record of
  the converted and the default values.
\<close>

theorem load_history_malformed_aborts:
  "(line \<in> set (file_lines (universal_newlines txt)) \<and> strip line \<noteq> []
      \<and> (json_loads L (strip line) = None
         \<or> (\<exists>raw. json_loads L (strip line) = Some raw \<and> (\<forall>kvs. raw \<noteq> JDict kvs))
         \<or> (\<exists>kvs. json_loads L (strip line) = Some (JDict kvs)
                  \<and> map_of kvs ''question_id'' = None))
     \<longrightarrow> load_history L clock (Some txt)
           \<in> {Inl JSONDecodeError, Inl TypeError, Inl KeyError, Inl ValueError})
   \<and> (file_lines (universal_newlines txt) = pre @ first # post \<and> strip first \<noteq> []
      \<and> (\<forall>l\<in>set pre. strip l = []
             \<or> (\<exists>raw. json_loads L (strip l) = Some raw
                      \<and> (\<forall>t. \<exists>h. History_from_dict L t raw = Inr h)))
     \<longrightarrow> (json_loads L (strip first) = None
            \<longrightarrow> load_history L clock (Some txt) = Inl JSONDecodeError)
         \<and> (\<forall>raw. json_loads L (strip first) = Some raw \<and> (\<forall>kvs. raw \<noteq> JDict kvs)
            \<longrightarrow> load_history L clock (Some txt) = Inl TypeError)
         \<and> (\<forall>kvs. json_loads L (strip first) = Some (JDict kvs)
                  \<and> map_of kvs ''question_id'' = None
            \<longrightarrow> load_history L clock (Some txt) = Inl KeyError))
   \<and> load_history L clock (Some txt)
       = load_history_loop L clock 0
           (filter (\<lambda>l. strip l \<noteq> []) (file_lines (universal_newlines txt)))
   \<and> (map_of items ''question_id'' = Some (JStr qid)
      \<and> (case map_of items ''attempts'' of None \<Rightarrow> a = 1 | Some v \<Rightarrow> py_int L v = Inr a)
      \<and> (case map_of items ''seconds'' of None \<Rightarrow> s = 0.0 | Some v \<Rightarrow> py_float L v = Inr s)
      \<and> (case map_of items ''correct'' of None \<Rightarrow> c = False | Some v \<Rightarrow> c = py_bool v)
      \<and> (case map_of items ''timestamp'' of None \<Rightarrow> t = now | Some v \<Rightarrow> py_float L v = Inr t)
     \<longrightarrow> History_from_dict L now (JDict items)
           = Inr (Some \<lparr>question_id = qid, attempts = a, seconds = s, correct = c,
                         timestamp = t\<rparr>))"
proof (intro conjI impI)
  assume bad: "line \<in> set (file_lines (universal_newlines txt)) \<and> strip line \<noteq> []
      \<and> (json_loads L (strip line) = None
         \<or> (\<exists>raw. json_loads L (strip line) = Some raw \<and> (\<forall>kvs. raw \<noteq> JDict kvs))
         \<or> (\<exists>kvs. json_loads L (strip line) = Some (JDict kvs)
                  \<and> map_of kvs ''question_id'' = None))"
  show "load_history L clock (Some txt)
           \<in> {Inl JSONDecodeError, Inl TypeError, Inl KeyError, Inl ValueError}"
  proof (cases "load_history L clock (Some txt)")
    case (Inl e)
    then have "load_history_loop L clock 0 (file_lines (universal_newlines txt)) = Inl e"
      by (simp add: load_history_def)
    from load_history_loop_errors [OF this] Inl show ?thesis by auto
  next
    case (Inr r)
    then have "load_history_loop L clock 0 (file_lines (universal_newlines txt)) = Inr r"
      by (simp add: load_history_def)
    then obtain raw t h where raw: "json_loads L (strip line) = Some raw"
      and ok: "History_from_dict L t raw = Inr h"
      using load_history_loop_Inr_lines bad by blast
    from bad raw ok have False
      using History_from_dict_not_dict [of raw L t] History_from_dict_no_id [of _ L t]
      by auto
    then show ?thesis ..
  qed
next
  assume h: "file_lines (universal_newlines txt) = pre @ first # post \<and> strip first \<noteq> []
      \<and> (\<forall>l\<in>set pre. strip l = []
             \<or> (\<exists>raw. json_loads L (strip l) = Some raw
                      \<and> (\<forall>t. \<exists>h. History_from_dict L t raw = Inr h)))"
  then have lines: "file_lines (universal_newlines txt) = pre @ first # post"
    and nb: "strip first \<noteq> []"
    and pre: "\<forall>l\<in>set pre. strip l = []
             \<or> (\<exists>raw. json_loads L (strip l) = Some raw
                      \<and> (\<forall>t. \<exists>h. History_from_dict L t raw = Inr h))"
    by blast+
  have raise: "load_history L clock (Some txt) = Inl e"
    if "case json_loads L (strip first) of
           None \<Rightarrow> e = JSONDecodeError
         | Some raw \<Rightarrow> \<forall>t. History_from_dict L t raw = Inl e" for e
    using load_history_loop_first_raise [OF pre nb that, of clock 0 post]
    by (simp add: load_history_def lines)
  show "json_loads L (strip first) = None
          \<Longrightarrow> load_history L clock (Some txt) = Inl JSONDecodeError"
    by (rule raise) simp
  show "\<forall>raw. json_loads L (strip first) = Some raw \<and> (\<forall>kvs. raw \<noteq> JDict kvs)
            \<longrightarrow> load_history L clock (Some txt) = Inl TypeError"
  proof (intro allI impI)
    fix raw assume "json_loads L (strip first) = Some raw \<and> (\<forall>kvs. raw \<noteq> JDict kvs)"
    then show "load_history L clock (Some txt) = Inl TypeError"
      by (intro raise) (simp add: History_from_dict_not_dict)
  qed
  show "\<forall>kvs. json_loads L (strip first) = Some (JDict kvs)
                  \<and> map_of kvs ''question_id'' = None
            \<longrightarrow> load_history L clock (Some txt) = Inl KeyError"
  proof (intro allI impI)
    fix kvs assume "json_loads L (strip first) = Some (JDict kvs)
                  \<and> map_of kvs ''question_id'' = None"
    then show "load_history L clock (Some txt) = Inl KeyError"
      by (intro raise) (simp add: History_from_dict_no_id)
  qed
next
  show "load_history L clock (Some txt)
       = load_history_loop L clock 0
           (filter (\<lambda>l. strip l \<noteq> []) (file_lines (universal_newlines txt)))"
    unfolding load_history_def option.case by (rule load_history_loop_skips_blank)
next
  assume "map_of items ''question_id'' = Some (JStr qid)
      \<and> (case map_of items ''attempts'' of None \<Rightarrow> a = 1 | Some v \<Rightarrow> py_int L v = Inr a)
      \<and> (case map_of items ''seconds'' of None \<Rightarrow> s = 0.0 | Some v \<Rightarrow> py_float L v = Inr s)
      \<and> (case map_of items ''correct'' of None \<Rightarrow> c = False | Some v \<Rightarrow> c = py_bool v)
      \<and> (case map_of items ''timestamp'' of None \<Rightarrow> t = now | Some v \<Rightarrow> py_float L v = Inr t)"
  then show "History_from_dict L now (JDict items)
           = Inr (Some \<lparr>question_id = qid, attempts = a, seconds = s, correct = c,
                         timestamp = t\<rparr>)"
    by (intro History_from_dict_fields) (auto split: option.splits)
qed

theorem load_history_malformed_aborts_witness:
  "load_history example_lib (\<lambda>k. 7) (Some (example_line @ [LF] @ ''not json'' @ [LF]))
     = Inl JSONDecodeError
   \<and> load_history example_lib (\<lambda>k. 7) (Some (example_line @ [LF] @ example_list_line @ [LF]))
     = Inl TypeError
   \<and> load_history example_lib (\<lambda>k. 7) (Some (example_line @ [LF] @ example_no_id_line @ [LF]))
     = Inl KeyError
   \<and> History_from_dict example_lib 7
        (JDict [(''question_id'', JStr ''q1''), (''attempts'', JFloat 2.5), (''correct'', JInt 1)])
     = Inr (Some \<lparr>question_id = ''q1'', attempts = 2, seconds = 0.0, correct = True,
                   timestamp = 7\<rparr>)"
proof (intro conjI)
  have pre: "\<forall>l\<in>set [example_line @ [LF]]. strip l = []
      \<or> (\<exists>raw. json_loads example_lib (strip l) = Some raw
             \<and> (\<forall>t. \<exists>h. History_from_dict example_lib t raw = Inr h))"
    by (simp add: example_line_loads History_from_dict_entry)
  have d1: "json_loads example_lib (strip (''not json'' @ [LF])) = None"
    by (simp add: strip_def isspace_def example_lib_def example_line_def example_short_line_def
        example_list_line_def example_no_id_line_def)
  have d2: "json_loads example_lib (strip (example_list_line @ [LF]))
        = Some (JList [JInt 1, JInt 2])
      \<and> (\<forall>kvs. JList [JInt 1, JInt 2] \<noteq> JDict kvs)"
    by (simp add: strip_def isspace_def example_lib_def example_line_def example_short_line_def
        example_list_line_def example_no_id_line_def)
  have d3: "json_loads example_lib (strip (example_no_id_line @ [LF]))
        = Some (JDict [(''attempts'', JInt 3)])
      \<and> map_of [(''attempts'', JInt 3)] ''question_id'' = None"
    by (simp add: strip_def isspace_def example_lib_def example_line_def example_short_line_def
        example_list_line_def example_no_id_line_def)
  have nb: "strip (''not json'' @ [LF]) \<noteq> []" "strip (example_list_line @ [LF]) \<noteq> []"
    "strip (example_no_id_line @ [LF]) \<noteq> []"
    by (simp_all add: strip_def isspace_def example_list_line_def example_no_id_line_def)
  have l1: "file_lines (universal_newlines (example_line @ [LF] @ ''not json'' @ [LF]))
      = [example_line @ [LF]] @ (''not json'' @ [LF]) # []"
    by (rule example_lines) simp_all
  have l2: "file_lines (universal_newlines (example_line @ [LF] @ example_list_line @ [LF]))
      = [example_line @ [LF]] @ (example_list_line @ [LF]) # []"
    by (rule example_lines) (simp_all add: example_list_line_def)
  have l3: "file_lines (universal_newlines (example_line @ [LF] @ example_no_id_line @ [LF]))
      = [example_line @ [LF]] @ (example_no_id_line @ [LF]) # []"
    by (rule example_lines) (simp_all add: example_no_id_line_def)
  note first_raises = load_history_malformed_aborts [THEN conjunct2, THEN conjunct1, THEN mp]
  show "load_history example_lib (\<lambda>k. 7) (Some (example_line @ [LF] @ ''not json'' @ [LF]))
     = Inl JSONDecodeError"
    by (rule first_raises [THEN conjunct1, THEN mp], rule conjI, rule l1, rule conjI,
        rule nb(1), rule pre, rule d1)
  show "load_history example_lib (\<lambda>k. 7) (Some (example_line @ [LF] @ example_list_line @ [LF]))
     = Inl TypeError"
    by (rule first_raises [THEN conjunct2, THEN conjunct1, THEN spec, THEN mp], rule conjI,
        rule l2, rule conjI, rule nb(2), rule pre, rule d2)
  show "load_history example_lib (\<lambda>k. 7) (Some (example_line @ [LF] @ example_no_id_line @ [LF]))
     = Inl KeyError"
    by (rule first_raises [THEN conjunct2, THEN conjunct2, THEN spec, THEN mp], rule conjI,
        rule l3, rule conjI, rule nb(3), rule pre, rule d3)
  show "History_from_dict example_lib 7
        (JDict [(''question_id'', JStr ''q1''), (''attempts'', JFloat 2.5), (''correct'', JInt 1)])
     = Inr (Some \<lparr>question_id = ''q1'', attempts = 2, seconds = 0.0, correct = True,
                   timestamp = 7\<rparr>)"
    using load_history_malformed_aborts [of _ _ example_lib _ _ _ _
        "[(''question_id'', JStr ''q1''), (''attempts'', JFloat 2.5), (''correct'', JInt 1)]"
        "''q1''" 2 0 True 7 7]
    by simp
qed

text \<open>The line \<open>{"question_id": "q1"}\<close> lacks four fields of a history record, and the
  load returns a record for it, completed with the defaults; a log with a line of two
  spaces and an empty line between two records loads as the two records.\<close>

theorem load_history_defaults_counterexample:
  "load_history example_lib (\<lambda>k. 1000) (Some (example_short_line @ [LF]))
     = Inr (Some [\<lparr>question_id = ''q1'', attempts = 1, seconds = 0, correct = False,
                    timestamp = 1000\<rparr>])
   \<and> load_history example_lib (\<lambda>k. 1000)
        (Some (example_short_line @ [LF] @ ''  '' @ [LF] @ [LF] @ example_short_line @ [LF]))
     = Inr (Some [\<lparr>question_id = ''q1'', attempts = 1, seconds = 0, correct = False,
                    timestamp = 1000\<rparr>,
                  \<lparr>question_id = ''q1'', attempts = 1, seconds = 0, correct = False,
                    timestamp = 1000\<rparr>])"
  by (simp add: load_history_def example_short_line_def example_lib_def example_line_def
      strip_def isspace_def History_from_dict_def dict_get_def)

subsection \<open>Appending a record and loading again\<close>

lemma lines_after_append:
  assumes "d \<noteq> []" and "\<not> isspace (hd d)" and "LF \<notin> set d" and "CR \<notin> set d"
    and "old = [] \<or> last old = LF"
  shows "file_lines (universal_newlines (old @ d @ [LF]))
       = file_lines (universal_newlines old) @ [d @ [LF]]"
proof -
  have hdd: "hd (d @ [LF]) \<noteq> LF" using assms(1,2) char_facts(1) by (cases d) auto
  have un: "universal_newlines (old @ d @ [LF]) = universal_newlines old @ d @ [LF]"
    using hdd assms(4) by (simp add: universal_newlines_append universal_newlines_id)
  have single: "file_lines (d @ [LF]) = [d @ [LF]]"
    using assms(1,3) by (rule file_lines_single)
  show ?thesis
  proof (cases "old = []")
    case True
    then show ?thesis using un single by simp
  next
    case False
    with assms(5) obtain s where "old = s @ [LF]" by (metis append_butlast_last_id)
    then obtain u where u: "universal_newlines old = u @ [LF]"
      using universal_newlines_ends_LF by blast
    have "file_lines (u @ [LF] @ (d @ [LF])) = file_lines (u @ [LF]) @ file_lines (d @ [LF])"
      by (rule file_lines_append_LF)
    then show ?thesis using un u single by simp
  qed
qed

text \<open>
  Claim C9. Let the log be absent, empty or end with a line break (as every log that
  \<open>record_result\<close> has written does), and let \<open>json.loads\<close> read back the entry from the
  text \<open>json.dumps\<close> writes for it. After \<open>record_result\<close>, a load yields the records that
  a load of the log before the call yields (at the same readings of the clock, which
  only records stored without a timestamp take), unchanged and in the same order, followed by
  one record with the question id, attempts, seconds and outcome passed to
  \<open>record_result\<close> and the time of the write; and the log ends with a line break again.
\<close>

theorem record_result_roundtrip:
  assumes "json_roundtrip L (entry qid n secs ok t)"
    and "case path of None \<Rightarrow> True | Some s \<Rightarrow> s = [] \<or> last s = LF"
    and "load_history L clock path = Inr (Some hs)"
  shows "load_history L clock (record_result L qid n secs ok t path)
           = Inr (Some (hs @ [\<lparr>question_id = qid, attempts = n, seconds = secs, correct = ok,
                                timestamp = t\<rparr>]))
       \<and> (\<exists>s. record_result L qid n secs ok t path = Some (s @ [LF]))"
proof
  let ?d = "json_dumps L (entry qid n secs ok t)"
  let ?old = "case path of None \<Rightarrow> [] | Some s \<Rightarrow> s"
  have d: "json_loads L ?d = Some (entry qid n secs ok t)" "?d \<noteq> []" "\<not> isspace (hd ?d)"
      "\<not> isspace (last ?d)" "LF \<notin> set ?d" "CR \<notin> set ?d"
    using assms(1) by (simp_all add: json_roundtrip_def Let_def)
  have old: "?old = [] \<or> last ?old = LF" using assms(2) by (cases path) auto
  have before: "load_history_loop L clock 0 (file_lines (universal_newlines ?old)) = Inr (Some hs)"
    using assms(3) by (cases path) (simp_all add: load_history_def)
  have new: "load_history_loop L clock j [?d @ [LF]]
      = Inr (Some [\<lparr>question_id = qid, attempts = n, seconds = secs, correct = ok,
                     timestamp = t\<rparr>])" for j
    using d(1,2) by (simp add: strip_line [OF d(2,3,4)] History_from_dict_entry)
  have "load_history L clock (record_result L qid n secs ok t path)
      = load_history_loop L clock 0 (file_lines (universal_newlines (?old @ ?d @ [LF])))"
    by (simp add: load_history_def record_result_def)
  also have "\<dots> = load_history_loop L clock 0 (file_lines (universal_newlines ?old) @ [?d @ [LF]])"
    by (simp only: lines_after_append [OF d(2,3,5,6) old])
  also have "\<dots> = Inr (Some (hs @ [\<lparr>question_id = qid, attempts = n, seconds = secs,
                                      correct = ok, timestamp = t\<rparr>]))"
    using before new by (rule load_history_loop_append)
  finally show "load_history L clock (record_result L qid n secs ok t path)
           = Inr (Some (hs @ [\<lparr>question_id = qid, attempts = n, seconds = secs, correct = ok,
                                timestamp = t\<rparr>]))" .
  show "\<exists>s. record_result L qid n secs ok t path = Some (s @ [LF])"
    by (intro exI [of _ "?old @ ?d"]) (simp add: record_result_def)
qed

lemma example_roundtrip: "json_roundtrip example_lib (entry ''q1'' 2 4.0 False 100.0)"
  by (simp add: json_roundtrip_def example_lib_def example_line_def isspace_def)

lemma example_load:
  "load_history example_lib (\<lambda>k. 200 + real k) (Some (example_short_line @ [LF]))
     = Inr (Some [\<lparr>question_id = ''q1'', attempts = 1, seconds = 0, correct = False,
                    timestamp = 200\<rparr>])"
  by (simp add: load_history_def example_short_line_def example_lib_def example_line_def
      strip_def isspace_def History_from_dict_def dict_get_def)

theorem record_result_roundtrip_witness:
  "json_roundtrip example_lib (entry ''q1'' 2 4.0 False 100.0)
   \<and> last (example_short_line @ [LF]) = LF
   \<and> load_history example_lib (\<lambda>k. 200 + real k)
        (record_result example_lib ''q1'' 2 4.0 False 100.0 (Some (example_short_line @ [LF])))
      = Inr (Some [\<lparr>question_id = ''q1'', attempts = 1, seconds = 0, correct = False,
                     timestamp = 200\<rparr>,
                   \<lparr>question_id = ''q1'', attempts = 2, seconds = 4.0, correct = False,
                     timestamp = 100.0\<rparr>])"
  using record_result_roundtrip [OF example_roundtrip, of "Some (example_short_line @ [LF])"
      "\<lambda>k. 200 + real k"
      "[\<lparr>question_id = ''q1'', attempts = 1, seconds = 0, correct = False, timestamp = 200\<rparr>]"]
    example_roundtrip example_load
  by simp

end
